theory Spec2Isabelle
  imports Complex_Main "HOL-Library.Multiset"
begin

section \<open>notifwd: the notification store, the cursor and the poll\<close>

text \<open>
  The development follows \<^verbatim>\<open>src/notifwd.py\<close>.  The class \<^verbatim>\<open>Notification\<close> keeps its
  configuration and its cursor in class attributes; here they are the fields of a state
  record that every operation takes and returns.  What lies outside the file (the SQLite
  table, \<^verbatim>\<open>plistlib\<close>, \<^verbatim>\<open>mdfind\<close>, the clock and \<^verbatim>\<open>requests.post\<close>) is a parameter:
  the table is a list of rows, the others are the fields of an environment record.
\<close>

subsection \<open>Python values and exceptions\<close>

datatype error =
    AttributeError
  | TypeError
  | KeyError
  | DecodeError
  | TransportError
  | SystemExit
  | Exception string

text \<open>A class attribute that is assigned only on some paths: reading it before the first
  assignment raises \<^verbatim>\<open>AttributeError\<close>.\<close>

datatype 'a attr = Unset | Assigned 'a

text \<open>The value of \<^verbatim>\<open>args.provider\<close>: \<^verbatim>\<open>None\<close>, a \<^verbatim>\<open>str\<close>, or a value of another type.\<close>

datatype pyval = PyNone | PyStr string | PyOther

subsection \<open>The store\<close>

text \<open>
  A row of the table \<^verbatim>\<open>record\<close>.  The source reads a row by position: column 0 is the
  key \<^verbatim>\<open>rec_id\<close> the queries order by, column 3 the serialized payload, column 4 the
  request date and column 6 the delivered date, either of which may be SQL \<^verbatim>\<open>NULL\<close>.
  The dates are SQLite \<^verbatim>\<open>REAL\<close>s, of which the source uses only the order.
\<close>

type_synonym payload = string

record row =
  rec_id :: int
  data :: payload
  request_date :: "real option"
  delivered_date :: "real option"

type_synonym store = "row list"

text \<open>
  \<^verbatim>\<open>SELECT * FROM (SELECT * FROM record ORDER BY rec_id DESC LIMIT n+1)
          ORDER BY rec_id LIMIT 1\<close>, then \<^verbatim>\<open>fetchone()\<close>:
  the inner query keeps the \<open>n + 1\<close> rows of greatest \<^verbatim>\<open>rec_id\<close> (all rows when there
  are fewer), the outer query returns the row of least \<^verbatim>\<open>rec_id\<close> among those, and
  \<^verbatim>\<open>fetchone\<close> gives \<^verbatim>\<open>None\<close> when there is no row.
\<close>

definition order_by_rec_id :: "row list \<Rightarrow> row list" where
  "order_by_rec_id rows = sort_key rec_id rows"

definition order_by_rec_id_desc :: "row list \<Rightarrow> row list" where
  "order_by_rec_id_desc rows = rev (sort_key rec_id rows)"

definition fetchone :: "row list \<Rightarrow> row option" where
  "fetchone rows = (case rows of [] \<Rightarrow> None | r # _ \<Rightarrow> Some r)"

definition get_notification_data :: "store \<Rightarrow> nat \<Rightarrow> row option" where
  "get_notification_data store n =
     fetchone (take 1 (order_by_rec_id (take (n + 1) (order_by_rec_id_desc store))))"

text \<open>\<^verbatim>\<open>sql_data[6] if sql_data[6] != None else sql_data[4]\<close>\<close>

definition effective_date :: "row \<Rightarrow> real option" where
  "effective_date r =
     (if delivered_date r \<noteq> None then delivered_date r else request_date r)"

text \<open>Python 3 \<^verbatim>\<open>a >= b\<close> on values that are a float or \<^verbatim>\<open>None\<close>: comparing with
  \<^verbatim>\<open>None\<close> raises \<^verbatim>\<open>TypeError\<close>.\<close>

fun py_ge :: "real option \<Rightarrow> real option \<Rightarrow> error + bool" where
  "py_ge (Some a) (Some b) = Inr (a \<ge> b)"
| "py_ge _ _ = Inl TypeError"

subsection \<open>Configuration and providers\<close>

record args =
  provider :: pyval
  api_key :: "string option"
  user_key :: "string option"
  frequency :: int
  version :: bool
  silent :: bool
  test :: bool

datatype provider_class = PushOver | Prowl

text \<open>\<^verbatim>\<open>APP_NAME.upper()\<close> is \<^verbatim>\<open>NOTIFWD\<close>; the messages are the f-strings of the source.\<close>

fun provider_validate_args :: "provider_class \<Rightarrow> args \<Rightarrow> error + unit" where
  "provider_validate_args PushOver a =
     (if api_key a = None
        then Inl (Exception ''no API key specified. Is $NOTIFWD_API_KEY defined?'')
      else if user_key a = None
        then Inl (Exception ''no USER key specified. Is $NOTIFWD_USER_KEY defined?'')
      else Inr ())"
| "provider_validate_args Prowl a =
     (if api_key a = None
        then Inl (Exception ''no API key specified. Is $NOTIFWD_API_KEY defined?'')
      else Inr ())"

definition PROVIDERS :: "string \<rightharpoonup> provider_class" where
  "PROVIDERS = [''prowl'' \<mapsto> Prowl, ''pushover'' \<mapsto> PushOver, ''default'' \<mapsto> Prowl]"

text \<open>\<^verbatim>\<open>str.lower\<close> on the characters of a byte string: the letters A to Z move to a to z.\<close>

definition lower_char :: "char \<Rightarrow> char" where
  "lower_char c =
     (case map_of (zip ''ABCDEFGHIJKLMNOPQRSTUVWXYZ'' ''abcdefghijklmnopqrstuvwxyz'') c of
        None \<Rightarrow> c
      | Some l \<Rightarrow> l)"

definition lower :: "string \<Rightarrow> string" where
  "lower s = map lower_char s"

text \<open>
  \<^verbatim>\<open>Notification.validate_args\<close> rewrites \<^verbatim>\<open>args.provider\<close> in place and returns
  nothing; the model returns the rewritten arguments, or the exception raised.
\<close>

definition default_provider_name :: "pyval \<Rightarrow> string" where
  "default_provider_name p =
     (let p1 = (case p of PyStr s \<Rightarrow> s | _ \<Rightarrow> ''default'');
          p2 = lower p1
      in if PROVIDERS p2 = None then ''default'' else p2)"

definition validate_args :: "args \<Rightarrow> error + args" where
  "validate_args a =
     (let name = default_provider_name (provider a) in
      if frequency a \<le> 0 then Inl (Exception ''frequency must be a positive integer.'')
      else (case PROVIDERS name of
              None \<Rightarrow> Inl KeyError
            | Some cls \<Rightarrow>
                (case provider_validate_args cls a of
                   Inl e \<Rightarrow> Inl e
                 | Inr _ \<Rightarrow> Inr (a\<lparr>provider := PyStr name\<rparr>))))"

text \<open>A configured provider object: the class with the keys its constructor copies.\<close>

datatype provider_obj =
    PushOverObj "string option" "string option"
  | ProwlObj "string option"

fun construct :: "provider_class \<Rightarrow> args \<Rightarrow> provider_obj" where
  "construct PushOver a = PushOverObj (api_key a) (user_key a)"
| "construct Prowl a = ProwlObj (api_key a)"

subsection \<open>Notifications and the outside world\<close>

record notification =
  identifier' :: string
  app :: string
  title :: string
  subtitle :: string
  body :: string
  ntext :: string
  ago :: real
  date :: real
  xml :: string

text \<open>What \<^verbatim>\<open>plistlib.loads\<close> returns, restricted to the keys \<^verbatim>\<open>parse_notification\<close>
  reads; a key that is absent is \<open>None\<close>.\<close>

record plist_req =
  titl :: "string option"
  subt :: "string option"
  pbody :: "string option"

record plist =
  p_app :: "string option"
  p_date :: "real option"
  p_req :: "plist_req option"

record response =
  status_code :: int
  reason :: string
  rtext :: string

text \<open>
  The environment: \<open>plist_loads\<close> is \<^verbatim>\<open>plistlib.loads\<close> (\<open>None\<close> when it raises),
  \<open>lookup_display_name\<close> the \<^verbatim>\<open>mdfind\<close> lookup, \<open>coredata_now\<close> the clock, and
  \<open>requests_post\<close> the HTTP call with its URL and form fields (\<open>None\<close> when the transport
  raises).
\<close>

record env =
  plist_loads :: "payload \<Rightarrow> plist option"
  lookup_display_name :: "string \<Rightarrow> string"
  coredata_now :: real
  requests_post :: "string \<Rightarrow> (string \<times> string option) list \<Rightarrow> response option"

text \<open>The blank notification of \<^verbatim>\<open>__init__\<close>.\<close>

definition init_notification :: notification where
  "init_notification =
     \<lparr>identifier' = [], app = [], title = [], subtitle = [], body = [], ntext = [],
      ago = 0, date = 0, xml = []\<rparr>"

definition or_empty :: "string option \<Rightarrow> string" where
  "or_empty v = (case v of None \<Rightarrow> [] | Some s \<Rightarrow> s)"

text \<open>The separator, the em dash U+2014, as its three bytes in UTF-8.\<close>

definition em_dash :: string where
  "em_dash = [char_of (226 :: nat), char_of (128 :: nat), char_of (148 :: nat)]"

definition parse_notification :: "env \<Rightarrow> payload \<Rightarrow> error + notification" where
  "parse_notification E raw_plist =
     (case plist_loads E raw_plist of
        None \<Rightarrow> Inl DecodeError
      | Some d \<Rightarrow>
          (let t0 = init_notification;
               t1 = (case p_app d of
                       None \<Rightarrow> t0
                     | Some v \<Rightarrow> t0\<lparr>identifier' := v, app := lookup_display_name E v\<rparr>);
               t2 = (case p_date d of
                       None \<Rightarrow> t1
                     | Some v \<Rightarrow> t1\<lparr>date := v, ago := coredata_now E - v\<rparr>);
               t3 = (case p_req d of
                       None \<Rightarrow> t2
                     | Some q \<Rightarrow>
                         t2\<lparr>title := (if titl q = None then title t2 else or_empty (titl q)),
                            subtitle := (if subt q = None then subtitle t2 else or_empty (subt q)),
                            body := (if pbody q = None then body t2 else or_empty (pbody q))\<rparr>)
           in Inr (t3\<lparr>ntext := subtitle t3 @ (if subtitle t3 \<noteq> [] then em_dash else []) @ body t3\<rparr>)))"

fun send_notification ::
  "env \<Rightarrow> provider_obj \<Rightarrow> string \<Rightarrow> string \<Rightarrow> string \<Rightarrow> response option" where
  "send_notification E (PushOverObj k u) a t x =
     requests_post E ''https://api.pushover.net/1/messages.json''
       [(''token'', k), (''user'', u),
        (''message'', Some (a @ '': '' @ t @ [CHR '' '', char_of (10 :: nat), CHR '' ''] @ x))]"
| "send_notification E (ProwlObj k) a t x =
     requests_post E ''https://api.prowlapp.com/publicapi/add''
       [(''apikey'', k), (''application'', Some a), (''event'', Some t),
        (''description'', Some x)]"

subsection \<open>The state of the poller\<close>

text \<open>What \<^verbatim>\<open>send\<close> prints.\<close>

datatype printed =
    SendingFrom notification
  | UnexpectedStatus int string string

text \<open>
  The class attributes, with two traces of the effects: \<open>sent\<close> lists the notifications
  handed to the provider, \<open>console\<close> the lines \<^verbatim>\<open>send\<close> printed, both oldest first.
\<close>

record state =
  FREQ :: int
  SILENT :: bool
  TEST :: bool
  PROVIDER :: provider_obj
  last_id :: "int attr"
  last_date :: "real option attr"
  sent :: "notification list"
  console :: "printed list"

text \<open>How a call ends: it returns, or it raises; either way with the state reached.\<close>

datatype outcome = Returned state | Raised error state

definition send :: "env \<Rightarrow> notification \<Rightarrow> state \<Rightarrow> outcome" where
  "send E self st =
     (let st1 = (if \<not> SILENT st then st\<lparr>console := console st @ [SendingFrom self]\<rparr> else st);
          st2 = st1\<lparr>sent := sent st1 @ [self]\<rparr>
      in case send_notification E (PROVIDER st) (app self) (title self) (ntext self) of
           None \<Rightarrow> Raised TransportError st2
         | Some response \<Rightarrow>
             if status_code response \<noteq> 200
             then Returned (st2\<lparr>console := console st2 @
                    [UnexpectedStatus (status_code response) (reason response) (rtext response)]\<rparr>)
             else Returned st2)"

text \<open>
  The condition of the \<^verbatim>\<open>while\<close> loop of \<^verbatim>\<open>check\<close>,
  \<^verbatim>\<open>sql_data[0] != Notification.last_id and (sql_data[6] if sql_data[6] != None else
  sql_data[4]) >= Notification.last_date\<close>: it subscripts \<^verbatim>\<open>sql_data\<close>, reads
  \<^verbatim>\<open>last_id\<close>, and only when the two ids differ reads and compares the dates.
\<close>

definition while_cond :: "row option \<Rightarrow> state \<Rightarrow> error + bool" where
  "while_cond sql_data st =
     (case sql_data of
        None \<Rightarrow> Inl TypeError
      | Some r \<Rightarrow>
          (case last_id st of
             Unset \<Rightarrow> Inl AttributeError
           | Assigned lid \<Rightarrow>
               if rec_id r = lid then Inr False
               else (case last_date st of
                       Unset \<Rightarrow> Inl AttributeError
                     | Assigned ld \<Rightarrow> py_ge (effective_date r) ld)))"

text \<open>The first statement of the loop body:
  \<^verbatim>\<open>Notification.send(Notification.parse_notification(sql_data[3]))\<close>.\<close>

definition loop_body :: "env \<Rightarrow> row option \<Rightarrow> state \<Rightarrow> outcome" where
  "loop_body E sql_data st =
     (case sql_data of
        None \<Rightarrow> Raised TypeError st
      | Some r \<Rightarrow>
          (case parse_notification E (data r) of
             Inl e \<Rightarrow> Raised e st
           | Inr notif \<Rightarrow> send E notif st))"

text \<open>
  The loop, entered with the offset \<open>n\<close> and the row \<open>sql_data\<close> fetched at it; after
  the body it fetches the row at \<open>n + 1\<close>.  The store does not change during one poll.
  A run that never leaves the loop has the value \<open>None\<close>.
\<close>

partial_function (option) check_loop ::
  "env \<Rightarrow> store \<Rightarrow> nat \<Rightarrow> row option \<Rightarrow> state \<Rightarrow> outcome option" where
  "check_loop E store n sql_data st =
     (case while_cond sql_data st of
        Inl e \<Rightarrow> Some (Raised e st)
      | Inr go \<Rightarrow>
          if \<not> go then Some (Returned st)
          else
            (case loop_body E sql_data st of
               Raised e st' \<Rightarrow> Some (Raised e st')
             | Returned st' \<Rightarrow>
                 check_loop E store (n + 1) (get_notification_data store (n + 1)) st'))"

text \<open>
  \<^verbatim>\<open>check\<close>: nothing happens on an empty store; otherwise the newest row is remembered,
  the loop runs, and the cursor is assigned after it.
\<close>

definition check :: "env \<Rightarrow> store \<Rightarrow> state \<Rightarrow> outcome option" where
  "check E store st =
     (case get_notification_data store 0 of
        None \<Rightarrow> Some (Returned st)
      | Some r \<Rightarrow>
          (case check_loop E store 0 (Some r) st of
             None \<Rightarrow> None
           | Some (Raised e st') \<Rightarrow> Some (Raised e st')
           | Some (Returned st') \<Rightarrow>
               Some (Returned (st'\<lparr>last_id := Assigned (rec_id r),
                                   last_date := Assigned (effective_date r)\<rparr>))))"

text \<open>
  \<^verbatim>\<open>setup\<close>, from the parsed arguments and the store found at startup: the version flag
  exits, the arguments are validated, the configuration is stored, and the cursor is
  assigned from the newest row when there is one (\<^verbatim>\<open>last_data[0]\<close> and
  \<^verbatim>\<open>last_data[6]\<close>).  The banner, the progress lines and the test notification of
  \<^verbatim>\<open>--test\<close> touch neither the cursor nor the provider and are left out.
\<close>

definition setup' :: "args \<Rightarrow> store \<Rightarrow> error + state" where
  "setup' a0 store =
     (if version a0 then Inl SystemExit
      else case validate_args a0 of
             Inl e \<Rightarrow> Inl e
           | Inr a \<Rightarrow>
               (case (case provider a of PyStr s \<Rightarrow> PROVIDERS s | _ \<Rightarrow> None) of
                  None \<Rightarrow> Inl KeyError
                | Some cls \<Rightarrow>
                    (let st = \<lparr>FREQ = frequency a, SILENT = silent a, TEST = test a,
                               PROVIDER = construct cls a,
                               last_id = Unset, last_date = Unset,
                               sent = [], console = []\<rparr>
                     in case get_notification_data store 0 of
                          None \<Rightarrow> Inr st
                        | Some last_data \<Rightarrow>
                            Inr (st\<lparr>last_id := Assigned (rec_id last_data),
                                    last_date := Assigned (delivered_date last_data)\<rparr>))))"

text \<open>The state an outcome carries.\<close>

fun outcome_state :: "outcome \<Rightarrow> state" where
  "outcome_state (Returned st) = st"
| "outcome_state (Raised e st) = st"


subsection \<open>Sample data\<close>

text \<open>
  A small world for concrete runs: the payload of a row is its title, every send is
  answered with the status code given, and a row has a delivered date only.
\<close>

definition sample_env :: "int \<Rightarrow> env" where
  "sample_env code =
     \<lparr>plist_loads = (\<lambda>raw. Some \<lparr>p_app = None, p_date = None,
                        p_req = Some \<lparr>titl = Some raw, subt = None, pbody = None\<rparr>\<rparr>),
      lookup_display_name = (\<lambda>_. []),
      coredata_now = 0,
      requests_post = (\<lambda>_ _. Some \<lparr>status_code = code, reason = ''reason'', rtext = ''body''\<rparr>)\<rparr>"

definition sample_row :: "int \<Rightarrow> string \<Rightarrow> real \<Rightarrow> row" where
  "sample_row k s t = \<lparr>rec_id = k, data = s, request_date = None, delivered_date = Some t\<rparr>"

definition sample_state :: "int attr \<Rightarrow> real option attr \<Rightarrow> state" where
  "sample_state i d =
     \<lparr>FREQ = 60, SILENT = True, TEST = False, PROVIDER = ProwlObj (Some ''key''),
      last_id = i, last_date = d, sent = [], console = []\<rparr>"

definition sample_args :: "pyval \<Rightarrow> string option \<Rightarrow> string option \<Rightarrow> args" where
  "sample_args p k u =
     \<lparr>provider = p, api_key = k, user_key = u, frequency = 60, version = False,
      silent = True, test = False\<rparr>"

subsection \<open>Auxiliary notions for the proofs\<close>

text \<open>
  The loop of \<^verbatim>\<open>check\<close> walks the rows from the newest down.  \<open>scan\<close> does the same
  over a list of rows and has the value \<open>None\<close> when every row of the list passed the
  condition and was sent; lemma \<open>check_loop_scan\<close> shows that the loop on a store with
  distinct keys is \<open>scan\<close> on its rows in descending order, and in particular never ends
  when \<open>scan\<close> runs off the list.
\<close>

fun scan :: "env \<Rightarrow> row list \<Rightarrow> state \<Rightarrow> outcome option" where
  "scan E [] st = None"
| "scan E (r # rs) st =
     (case while_cond (Some r) st of
        Inl e \<Rightarrow> Some (Raised e st)
      | Inr go \<Rightarrow>
          if \<not> go then Some (Returned st)
          else
            (case loop_body E (Some r) st of
               Raised e st' \<Rightarrow> Some (Raised e st')
             | Returned st' \<Rightarrow> scan E rs st'))"

text \<open>Two states that differ at most in their traces \<open>sent\<close> and \<open>console\<close>.\<close>

definition same_cursor :: "state \<Rightarrow> state \<Rightarrow> bool" where
  "same_cursor a b \<longleftrightarrow>
     last_id a = last_id b \<and> last_date a = last_date b \<and> PROVIDER a = PROVIDER b \<and>
     SILENT a = SILENT b \<and> FREQ a = FREQ b \<and> TEST a = TEST b"

text \<open>What \<open>sample_env\<close> decodes from a payload \<open>t\<close>.\<close>

definition sample_notification :: "string \<Rightarrow> notification" where
  "sample_notification t = init_notification\<lparr>title := t\<rparr>"

text \<open>
  For comparing two runs that differ only in what the provider answers: \<open>quiet\<close>
  forgets the printed lines, \<open>same_decoding\<close> relates two environments that decode alike,
  and \<open>always_answers\<close> says that the HTTP call never raises.
\<close>

definition quiet :: "state \<Rightarrow> state" where
  "quiet st = st\<lparr>console := []\<rparr>"

fun silenced :: "outcome \<Rightarrow> outcome" where
  "silenced (Returned st) = Returned (quiet st)"
| "silenced (Raised e st) = Raised e (quiet st)"

definition same_decoding :: "env \<Rightarrow> env \<Rightarrow> bool" where
  "same_decoding E1 E2 \<longleftrightarrow>
     plist_loads E1 = plist_loads E2 \<and> lookup_display_name E1 = lookup_display_name E2 \<and>
     coredata_now E1 = coredata_now E2"

definition always_answers :: "env \<Rightarrow> bool" where
  "always_answers E \<longleftrightarrow> (\<forall>url form. requests_post E url form \<noteq> None)"




text \<open>
  The lines one call of \<^verbatim>\<open>send\<close> prints for a notification, and the rows a poll
  started in state \<open>st\<close> finds new: those before the first row, from the newest down,
  at which the loop condition is not true.
\<close>

definition send_lines :: "env \<Rightarrow> state \<Rightarrow> notification \<Rightarrow> printed list" where
  "send_lines E st n =
     (if SILENT st then [] else [SendingFrom n]) @
     (case send_notification E (PROVIDER st) (app n) (title n) (ntext n) of
        None \<Rightarrow> []
      | Some resp \<Rightarrow>
          if status_code resp = 200 then []
          else [UnexpectedStatus (status_code resp) (reason resp) (rtext resp)])"

definition new_rows :: "store \<Rightarrow> state \<Rightarrow> row list" where
  "new_rows store st =
     takeWhile (\<lambda>r. while_cond (Some r) st = Inr True) (order_by_rec_id_desc store)"

section \<open>Properties\<close>

subsection \<open>The store query\<close>

lemma sort_key_rev_sorted:
  assumes "sorted (map f ys)" "distinct (map f ys)"
  shows "sort_key f (rev ys) = ys"
proof (rule sort_key_inj_key_eq)
  show "mset (rev ys) = mset ys" by simp
  show "inj_on f (set (rev ys))" using assms(2) by (simp add: distinct_map)
  show "sorted (map f ys)" by fact
qed

lemma get_notification_data_empty: "get_notification_data [] n = None"
  by (simp add: get_notification_data_def order_by_rec_id_def order_by_rec_id_desc_def fetchone_def)

lemma get_notification_data_eq:
  assumes d: "distinct (map rec_id store)" and ne: "store \<noteq> []"
  shows "get_notification_data store n =
           Some (order_by_rec_id_desc store ! min n (length store - 1))"
proof -
  let ?xs = "sort_key rec_id store"
  let ?m = "length store"
  let ?k = "?m - Suc (min n (?m - 1))"
  let ?ys = "drop ?k ?xs"
  have len: "length ?xs = ?m" by simp
  have m: "0 < ?m" using ne by simp
  have tk: "take (n + 1) (rev ?xs) = rev ?ys"
  proof -
    have "take (n + 1) (rev ?xs) = rev (drop (?m - (n + 1)) ?xs)"
      by (simp add: take_rev)
    moreover have "drop (?m - (n + 1)) ?xs = ?ys"
    proof (cases "n < ?m")
      case True then show ?thesis by (simp add: min_def)
    next
      case False
      then have "min n (?m - 1) = ?m - 1" by simp
      with False m show ?thesis by simp
    qed
    ultimately show ?thesis by simp
  qed
  have s: "sorted (map rec_id ?ys)"
    using sorted_sort_key[of rec_id store] by (simp add: drop_map[symmetric] sorted_wrt_drop)
  have dd: "distinct (map rec_id ?ys)"
  proof -
    have "distinct (map rec_id ?xs)" using d by (simp add: distinct_map)
    then show ?thesis by (simp add: drop_map[symmetric] distinct_drop)
  qed
  have so: "sort_key rec_id (rev ?ys) = ?ys"
    by (rule sort_key_rev_sorted[OF s dd])
  have kl: "?k < ?m" using m by simp
  then have ysne: "?ys \<noteq> []" by simp
  have hd: "hd ?ys = ?xs ! ?k" using kl by (simp add: hd_drop_conv_nth)
  have "?m - 1 < ?m" using ne by (cases store) simp_all
  then have "min n (?m - 1) < ?m" by (rule order.strict_trans1[OF min.cobounded2])
  then have "min n (?m - 1) < length ?xs" by (simp only: length_sort)
  then have nth: "rev ?xs ! min n (?m - 1) = ?xs ! ?k"
    by (simp add: rev_nth)
  have "get_notification_data store n = fetchone (take 1 (sort_key rec_id (rev ?ys)))"
    by (simp only: get_notification_data_def order_by_rec_id_def order_by_rec_id_desc_def tk)
  also have "\<dots> = fetchone (take 1 ?ys)"
    by (simp only: so)
  also have "\<dots> = Some (hd ?ys)"
    using ysne by (cases ?ys) (simp_all add: fetchone_def)
  also have "hd ?ys = rev ?xs ! min n (?m - 1)"
    by (simp only: hd nth)
  finally show ?thesis
    by (simp only: order_by_rec_id_desc_def)
qed

text \<open>
  Claim C4: for every offset \<open>n\<close> and every store with \<open>m\<close> live rows, the query returns
  the row ranked \<open>n\<close> from the most recent when \<open>n < m\<close> and no row when \<open>n \<ge> m\<close>.
  The first half holds (\<open>get_notification_data_eq\<close> with \<open>min n (m - 1) = n\<close>); the
  second does not: on a store of one row the query at offset 1 returns that row again,
  because the inner \<^verbatim>\<open>LIMIT\<close> keeps the rows there are and the outer query takes the
  oldest of them.
\<close>

theorem get_notification_data_past_the_end:
  "get_notification_data [sample_row 1 ''1'' 10] 1 = Some (sample_row 1 ''1'' 10)"
  by (simp add: get_notification_data_def order_by_rec_id_def order_by_rec_id_desc_def
        fetchone_def sample_row_def)

subsection \<open>Configuration\<close>

lemma lower_pushover: "lower ''pushover'' = ''pushover''"
  by (simp add: lower_def lower_char_def)

lemma lower_prowl: "lower ''prowl'' = ''prowl''"
  by (simp add: lower_def lower_char_def)

lemma provider_update_same: "provider a = p \<Longrightarrow> a\<lparr>provider := p\<rparr> = a"
  by (cases a) simp

lemma validate_args_pushover:
  "provider a = PyStr ''pushover'' \<Longrightarrow> 0 < frequency a \<Longrightarrow>
   validate_args a = (case provider_validate_args PushOver a of
                        Inl e \<Rightarrow> Inl e | Inr u \<Rightarrow> Inr a)"
  by (simp add: validate_args_def default_provider_name_def Let_def lower_pushover PROVIDERS_def
       provider_update_same split: sum.splits)

lemma validate_args_prowl:
  "provider a = PyStr ''prowl'' \<Longrightarrow> 0 < frequency a \<Longrightarrow>
   validate_args a = (case provider_validate_args Prowl a of
                        Inl e \<Rightarrow> Inl e | Inr u \<Rightarrow> Inr a)"
  by (simp add: validate_args_def default_provider_name_def Let_def lower_prowl PROVIDERS_def
       provider_update_same split: sum.splits)

lemma PROVIDERS_default: "PROVIDERS ''default'' = Some Prowl"
  by (simp add: PROVIDERS_def)

lemma default_provider_name_unknown:
  assumes "p = PyNone \<or> p = PyOther \<or> (\<exists>s. p = PyStr s \<and> PROVIDERS (lower s) = None)"
  shows "default_provider_name p = ''default''"
proof -
  have l: "lower ''default'' = ''default''"
    by (simp add: lower_def lower_char_def)
  from assms show ?thesis
    by (auto simp: default_provider_name_def Let_def l PROVIDERS_default)
qed

lemma lower_bogus: "PROVIDERS (lower ''Growl'') = None"
  by (simp add: lower_def lower_char_def PROVIDERS_def)

text \<open>
  Claim C9: credentials are validated at configuration time, before any poll.  The
  PushOver provider without an API key or without a user key fails with the message
  naming the missing key, and succeeds with both.  The Prowl provider needs the API key
  and nothing else: it fails with the message about the API key when that key is
  missing, and succeeds with it whatever the user key is.  \<^verbatim>\<open>setup\<close> ends with the
  same exception when validation fails, so no state exists on which a poll could run,
  and builds the provider object when it succeeds.
\<close>

theorem credentials_validated_before_any_poll:
  "(api_key a = None \<longrightarrow>
      provider_validate_args PushOver a =
        Inl (Exception ''no API key specified. Is $NOTIFWD_API_KEY defined?''))
   \<and> (api_key a \<noteq> None \<and> user_key a = None \<longrightarrow>
      provider_validate_args PushOver a =
        Inl (Exception ''no USER key specified. Is $NOTIFWD_USER_KEY defined?''))
   \<and> (api_key a \<noteq> None \<and> user_key a \<noteq> None \<longrightarrow> provider_validate_args PushOver a = Inr ())
   \<and> (api_key a = None \<longrightarrow>
      provider_validate_args Prowl a =
        Inl (Exception ''no API key specified. Is $NOTIFWD_API_KEY defined?''))
   \<and> (api_key a \<noteq> None \<longrightarrow> provider_validate_args Prowl a = Inr ())
   \<and> (\<not> version a \<and> 0 < frequency a \<and> provider a = PyStr ''pushover'' \<and> api_key a = None \<longrightarrow>
      setup' a store = Inl (Exception ''no API key specified. Is $NOTIFWD_API_KEY defined?''))
   \<and> (\<not> version a \<and> 0 < frequency a \<and> provider a = PyStr ''pushover'' \<and>
        api_key a \<noteq> None \<and> user_key a = None \<longrightarrow>
      setup' a store = Inl (Exception ''no USER key specified. Is $NOTIFWD_USER_KEY defined?''))
   \<and> (\<not> version a \<and> 0 < frequency a \<and> provider a = PyStr ''pushover'' \<and>
        api_key a \<noteq> None \<and> user_key a \<noteq> None \<longrightarrow>
      (\<exists>st. setup' a store = Inr st \<and> PROVIDER st = PushOverObj (api_key a) (user_key a)))
   \<and> (\<not> version a \<and> 0 < frequency a \<and> provider a = PyStr ''prowl'' \<and> api_key a = None \<longrightarrow>
      setup' a store = Inl (Exception ''no API key specified. Is $NOTIFWD_API_KEY defined?''))
   \<and> (\<not> version a \<and> 0 < frequency a \<and> provider a = PyStr ''prowl'' \<and> api_key a \<noteq> None \<longrightarrow>
      (\<exists>st. setup' a store = Inr st \<and> PROVIDER st = ProwlObj (api_key a)))"
proof (intro conjI impI)
  assume "\<not> version a \<and> 0 < frequency a \<and> provider a = PyStr ''pushover'' \<and> api_key a = None"
  then show "setup' a store = Inl (Exception ''no API key specified. Is $NOTIFWD_API_KEY defined?'')"
    by (simp add: setup'_def validate_args_pushover)
next
  assume "\<not> version a \<and> 0 < frequency a \<and> provider a = PyStr ''pushover'' \<and>
        api_key a \<noteq> None \<and> user_key a = None"
  then show "setup' a store = Inl (Exception ''no USER key specified. Is $NOTIFWD_USER_KEY defined?'')"
    by (simp add: setup'_def validate_args_pushover)
next
  assume "\<not> version a \<and> 0 < frequency a \<and> provider a = PyStr ''pushover'' \<and>
        api_key a \<noteq> None \<and> user_key a \<noteq> None"
  then show "\<exists>st. setup' a store = Inr st \<and> PROVIDER st = PushOverObj (api_key a) (user_key a)"
    by (auto simp: setup'_def validate_args_pushover PROVIDERS_def Let_def split: option.splits)
next
  assume "\<not> version a \<and> 0 < frequency a \<and> provider a = PyStr ''prowl'' \<and> api_key a = None"
  then show "setup' a store = Inl (Exception ''no API key specified. Is $NOTIFWD_API_KEY defined?'')"
    by (simp add: setup'_def validate_args_prowl)
next
  assume "\<not> version a \<and> 0 < frequency a \<and> provider a = PyStr ''prowl'' \<and> api_key a \<noteq> None"
  then show "\<exists>st. setup' a store = Inr st \<and> PROVIDER st = ProwlObj (api_key a)"
    by (auto simp: setup'_def validate_args_prowl PROVIDERS_def Let_def split: option.splits)
qed simp_all

theorem credentials_validated_before_any_poll_witness:
  "setup' (sample_args (PyStr ''pushover'') (Some ''k'') None) [] =
     Inl (Exception ''no USER key specified. Is $NOTIFWD_USER_KEY defined?'')
   \<and> setup' (sample_args (PyStr ''pushover'') None (Some ''u'')) [] =
     Inl (Exception ''no API key specified. Is $NOTIFWD_API_KEY defined?'')
   \<and> setup' (sample_args (PyStr ''prowl'') None (Some ''u'')) [] =
     Inl (Exception ''no API key specified. Is $NOTIFWD_API_KEY defined?'')
   \<and> provider_validate_args Prowl (sample_args (PyStr ''prowl'') None (Some ''u'')) =
     Inl (Exception ''no API key specified. Is $NOTIFWD_API_KEY defined?'')
   \<and> (\<exists>st. setup' (sample_args (PyStr ''prowl'') (Some ''k'') None) [] = Inr st
          \<and> PROVIDER st = ProwlObj (Some ''k''))"
proof -
  let ?a = "sample_args (PyStr ''pushover'') (Some ''k'') None"
  let ?b = "sample_args (PyStr ''prowl'') (Some ''k'') None"
  let ?c = "sample_args (PyStr ''pushover'') None (Some ''u'')"
  let ?d = "sample_args (PyStr ''prowl'') None (Some ''u'')"
  have a: "\<not> version ?a \<and> 0 < frequency ?a \<and> provider ?a = PyStr ''pushover'' \<and>
        api_key ?a \<noteq> None \<and> user_key ?a = None"
    by (simp add: sample_args_def)
  have b: "\<not> version ?b \<and> 0 < frequency ?b \<and> provider ?b = PyStr ''prowl'' \<and> api_key ?b \<noteq> None"
    by (simp add: sample_args_def)
  have c: "\<not> version ?c \<and> 0 < frequency ?c \<and> provider ?c = PyStr ''pushover'' \<and> api_key ?c = None"
    by (simp add: sample_args_def)
  have d: "\<not> version ?d \<and> 0 < frequency ?d \<and> provider ?d = PyStr ''prowl'' \<and> api_key ?d = None"
    by (simp add: sample_args_def)
  note t = credentials_validated_before_any_poll[of _ "[]", THEN conjunct2, THEN conjunct2, THEN conjunct2]
  have 4: "provider_validate_args Prowl ?d =
              Inl (Exception ''no API key specified. Is $NOTIFWD_API_KEY defined?'')"
    using d by (intro t[THEN conjunct1, rule_format]) simp
  note u = t[THEN conjunct2, THEN conjunct2]
  have 2: "setup' ?c [] = Inl (Exception ''no API key specified. Is $NOTIFWD_API_KEY defined?'')"
    by (rule u[THEN conjunct1, rule_format, OF c])
  have 1: "setup' ?a [] = Inl (Exception ''no USER key specified. Is $NOTIFWD_USER_KEY defined?'')"
    by (rule u[THEN conjunct2, THEN conjunct1, rule_format, OF a])
  note v = u[THEN conjunct2, THEN conjunct2, THEN conjunct2]
  have 3: "setup' ?d [] = Inl (Exception ''no API key specified. Is $NOTIFWD_API_KEY defined?'')"
    by (rule v[THEN conjunct1, rule_format, OF d])
  have 5: "\<exists>st. setup' ?b [] = Inr st \<and> PROVIDER st = ProwlObj (api_key ?b)"
    by (rule v[THEN conjunct2, rule_format, OF b])
  have "api_key ?b = Some ''k''" by (simp add: sample_args_def)
  with 1 2 3 4 5 show ?thesis by simp
qed

text \<open>
  Claim C10: a provider name that is absent, not a string, or after lowercasing not a key
  of \<open>PROVIDERS\<close> is replaced by \<^verbatim>\<open>"default"\<close>, which the table maps to Prowl;
  validation then goes on with the frequency check and Prowl's credential check, and no
  error about the name is raised.
\<close>

theorem unknown_provider_falls_back_to_prowl:
  assumes "provider a = PyNone \<or> provider a = PyOther \<or>
           (\<exists>s. provider a = PyStr s \<and> PROVIDERS (lower s) = None)"
  shows "validate_args a =
           (if frequency a \<le> 0 then Inl (Exception ''frequency must be a positive integer.'')
            else case provider_validate_args Prowl a of
                   Inl e \<Rightarrow> Inl e
                 | Inr u \<Rightarrow> Inr (a\<lparr>provider := PyStr ''default''\<rparr>))"
  using default_provider_name_unknown[OF assms]
  by (simp add: validate_args_def Let_def PROVIDERS_default)

theorem unknown_provider_falls_back_to_prowl_witness:
  "validate_args (sample_args (PyStr ''Growl'') (Some ''k'') None) =
     Inr (sample_args (PyStr ''default'') (Some ''k'') None)
   \<and> validate_args (sample_args PyNone None None) =
     Inl (Exception ''no API key specified. Is $NOTIFWD_API_KEY defined?'')"
proof -
  have a: "provider (sample_args (PyStr ''Growl'') (Some ''k'') None) = PyNone \<or>
        provider (sample_args (PyStr ''Growl'') (Some ''k'') None) = PyOther \<or>
        (\<exists>s. provider (sample_args (PyStr ''Growl'') (Some ''k'') None) = PyStr s \<and> PROVIDERS (lower s) = None)"
    using lower_bogus by (simp add: sample_args_def)
  have b: "provider (sample_args PyNone None None) = PyNone \<or>
        provider (sample_args PyNone None None) = PyOther \<or>
        (\<exists>s. provider (sample_args PyNone None None) = PyStr s \<and> PROVIDERS (lower s) = None)"
    by (simp add: sample_args_def)
  show ?thesis
    using unknown_provider_falls_back_to_prowl[OF a] unknown_provider_falls_back_to_prowl[OF b]
    by (simp add: sample_args_def)
qed

subsection \<open>The loop of one poll\<close>

lemmas query_defs = get_notification_data_def order_by_rec_id_def order_by_rec_id_desc_def
  fetchone_def

lemmas poll_defs = check_def while_cond_def loop_body_def effective_date_def
  parse_notification_def send_def init_notification_def or_empty_def Let_def

lemmas sample_defs = sample_env_def sample_row_def sample_state_def sample_args_def
  sample_notification_def

lemma same_cursor_refl: "same_cursor a a"
  by (simp add: same_cursor_def)

lemma same_cursor_trans: "same_cursor a b \<Longrightarrow> same_cursor b c \<Longrightarrow> same_cursor a c"
  by (simp add: same_cursor_def)

lemma send_same_cursor: "same_cursor st (outcome_state (send E n st))"
  by (simp add: send_def same_cursor_def Let_def split: option.splits)

lemma loop_body_same_cursor: "same_cursor st (outcome_state (loop_body E sql st))"
  by (auto simp: loop_body_def same_cursor_refl send_same_cursor split: option.splits sum.splits)

lemma while_cond_same_cursor: "same_cursor a b \<Longrightarrow> while_cond sql a = while_cond sql b"
  by (auto simp: while_cond_def same_cursor_def split: option.splits attr.splits)

lemma send_returns_again:
  "send E n st = Returned s1 \<Longrightarrow> same_cursor st st2 \<Longrightarrow> \<exists>s3. send E n st2 = Returned s3"
  by (auto simp: send_def same_cursor_def Let_def split: option.splits if_splits)

lemma loop_body_returns_again:
  "loop_body E sql st = Returned s1 \<Longrightarrow> same_cursor st st2 \<Longrightarrow>
   \<exists>s3. loop_body E sql st2 = Returned s3"
  by (auto simp: loop_body_def split: option.splits sum.splits dest: send_returns_again)

lemma check_loop_stuck:
  assumes later: "\<And>k. n < k \<Longrightarrow> get_notification_data store k = Some r"
    and go: "while_cond (Some r) st = Inr True"
    and body: "loop_body E (Some r) st = Returned s1"
  shows "check_loop E store n (Some r) st = None"
proof (rule ccontr)
  assume "check_loop E store n (Some r) st \<noteq> None"
  then obtain y where y: "check_loop E store n (Some r) st = Some y" by auto
  let ?Q = "\<lambda>E' store' n' sql' st' (y::outcome).
      \<not> (E' = E \<and> store' = store \<and> n \<le> n' \<and> sql' = Some r \<and> same_cursor st st')"
  have "?Q E store n (Some r) st y"
  proof (rule check_loop.raw_induct[where P = ?Q, OF _ y], goal_cases)
    case step: (1 f E' store' n' sql' st' y')
    show ?case
    proof
      assume a: "E' = E \<and> store' = store \<and> n \<le> n' \<and> sql' = Some r \<and> same_cursor st st'"
      then have c: "while_cond sql' st' = Inr True"
        using go while_cond_same_cursor[of st st'] by simp
      from a body obtain s3 where b: "loop_body E' sql' st' = Returned s3"
        using loop_body_returns_again by blast
      have sc: "same_cursor st s3"
        using loop_body_same_cursor[of st' E' sql'] b a same_cursor_trans by fastforce
      from step(2) c b have "f E' store' (n' + 1) (get_notification_data store' (n' + 1)) s3 = Some y'"
        by simp
      moreover have "get_notification_data store' (n' + 1) = Some r"
        using a later by simp
      ultimately have "f E store (n' + 1) (Some r) s3 = Some y'" using a by simp
      from step(1)[OF this] sc a show False by simp
    qed
  qed
  then show False by (simp add: same_cursor_refl)
qed


lemma length_desc: "length (order_by_rec_id_desc store) = length store"
  by (simp add: order_by_rec_id_desc_def)

lemma set_desc: "set (order_by_rec_id_desc store) = set store"
  by (simp add: order_by_rec_id_desc_def)

lemma get_notification_data_lt:
  "distinct (map rec_id store) \<Longrightarrow> n < length store \<Longrightarrow>
   get_notification_data store n = Some (order_by_rec_id_desc store ! n)"
  using get_notification_data_eq[of store n] by (cases store) (simp_all add: min_def)

lemma get_notification_data_ge:
  "distinct (map rec_id store) \<Longrightarrow> store \<noteq> [] \<Longrightarrow> length store - 1 \<le> n \<Longrightarrow>
   get_notification_data store n = Some (order_by_rec_id_desc store ! (length store - 1))"
  using get_notification_data_eq[of store n] by (simp add: min_def)

lemma check_loop_scan:
  assumes d: "distinct (map rec_id store)"
  shows "n < length store \<Longrightarrow>
         check_loop E store n (Some (order_by_rec_id_desc store ! n)) st =
         scan E (drop n (order_by_rec_id_desc store)) st"
proof (induction "length store - n" arbitrary: n st)
  case 0
  then show ?case by simp
next
  case (Suc k)
  let ?D = "order_by_rec_id_desc store"
  let ?r = "?D ! n"
  have ne: "store \<noteq> []" using Suc.prems by auto
  have dr: "drop n ?D = ?r # drop (Suc n) ?D"
    using Suc.prems by (simp add: Cons_nth_drop_Suc length_desc)
  show ?case
  proof (cases "while_cond (Some ?r) st")
    case (Inl e)
    then show ?thesis by (simp add: dr check_loop.simps[of E store n])
  next
    case (Inr go)
    show ?thesis
    proof (cases go)
      case False
      with Inr show ?thesis by (simp add: dr check_loop.simps[of E store n])
    next
      case True
      show ?thesis
      proof (cases "loop_body E (Some ?r) st")
        case (Raised e s1)
        with Inr True show ?thesis by (simp add: dr check_loop.simps[of E store n])
      next
        case (Returned s1)
        have sc: "same_cursor st s1"
          using loop_body_same_cursor[of st E "Some ?r"] Returned by simp
        have unfold: "check_loop E store n (Some ?r) st =
                check_loop E store (n + 1) (get_notification_data store (n + 1)) s1"
          using Inr True Returned by (simp add: check_loop.simps[of E store n])
        have sunfold: "scan E (drop n ?D) st = scan E (drop (Suc n) ?D) s1"
          using Inr True Returned by (simp add: dr)
        show ?thesis
        proof (cases "Suc n < length store")
          case lt: True
          have "get_notification_data store (n + 1) = Some (?D ! Suc n)"
            using get_notification_data_lt[OF d lt] by simp
          moreover have "check_loop E store (Suc n) (Some (?D ! Suc n)) s1 =
                         scan E (drop (Suc n) ?D) s1"
            using Suc.hyps(1)[of "Suc n" s1] Suc.hyps(2) lt by simp
          ultimately show ?thesis using unfold sunfold by simp
        next
          case ge: False
          then have n: "n = length store - 1" using Suc.prems by simp
          have later: "\<And>j. n + 1 < j \<Longrightarrow> get_notification_data store j = Some ?r"
            using get_notification_data_ge[OF d ne] n by simp
          have here: "get_notification_data store (n + 1) = Some ?r"
            using get_notification_data_ge[OF d ne, of "n + 1"] n by simp
          have go': "while_cond (Some ?r) s1 = Inr True"
            using while_cond_same_cursor[OF sc, of "Some ?r"] Inr True by simp
          obtain s3 where body': "loop_body E (Some ?r) s1 = Returned s3"
            using loop_body_returns_again[OF Returned sc] by blast
          have "check_loop E store (n + 1) (Some ?r) s1 = None"
            by (rule check_loop_stuck[OF later go' body'])
          moreover have "drop (Suc n) ?D = []" using ge by (simp add: length_desc)
          ultimately show ?thesis using unfold sunfold here by simp
        qed
      qed
    qed
  qed
qed

lemma check_scan:
  assumes d: "distinct (map rec_id store)" and ne: "store \<noteq> []"
  shows "check E store st =
           (case scan E (order_by_rec_id_desc store) st of
              None \<Rightarrow> None
            | Some (Raised e st') \<Rightarrow> Some (Raised e st')
            | Some (Returned st') \<Rightarrow>
                Some (Returned (st'\<lparr>last_id := Assigned (rec_id (order_by_rec_id_desc store ! 0)),
                  last_date := Assigned (effective_date (order_by_rec_id_desc store ! 0))\<rparr>)))"
proof -
  have m: "0 < length store" using ne by simp
  have g: "get_notification_data store 0 = Some (order_by_rec_id_desc store ! 0)"
    by (rule get_notification_data_lt[OF d m])
  have "check_loop E store 0 (Some (order_by_rec_id_desc store ! 0)) st =
        scan E (order_by_rec_id_desc store) st"
    using check_loop_scan[OF d m, of E st] by simp
  then show ?thesis by (simp add: check_def g)
qed

lemma loop_body_Returned:
  "loop_body E (Some r) st = Returned s1 \<Longrightarrow>
   \<exists>notif. parse_notification E (data r) = Inr notif \<and> sent s1 = sent st @ [notif]"
  by (auto simp: loop_body_def send_def Let_def split: sum.splits option.splits if_splits)

lemma loop_body_Raised:
  "loop_body E (Some r) st = Raised e s1 \<Longrightarrow>
   (parse_notification E (data r) = Inl e \<and> s1 = st) \<or>
   (\<exists>notif. parse_notification E (data r) = Inr notif \<and> sent s1 = sent st @ [notif])"
  by (auto simp: loop_body_def send_def Let_def split: sum.splits option.splits if_splits)

lemma scan_Some:
  "scan E rows st = Some out \<Longrightarrow>
   \<exists>k\<le>length rows.
     same_cursor st (outcome_state out) \<and>
     map Inr (sent (outcome_state out)) =
       map Inr (sent st) @ map (\<lambda>r. parse_notification E (data r)) (take k rows) \<and>
     (\<forall>r\<in>set (take k rows). while_cond (Some r) st = Inr True) \<and>
     (\<forall>s1. out = Returned s1 \<longrightarrow> k < length rows \<and> while_cond (Some (rows ! k)) st = Inr False)"
proof (induction rows arbitrary: st)
  case Nil
  then show ?case by simp
next
  case (Cons r rs)
  show ?case
  proof (cases "while_cond (Some r) st")
    case (Inl e)
    with Cons.prems have "out = Raised e st" by simp
    then show ?thesis
      by (intro exI[of _ 0]) (simp add: same_cursor_refl)
  next
    case (Inr go)
    show ?thesis
    proof (cases go)
      case False
      with Inr Cons.prems have "out = Returned st" by simp
      with Inr False show ?thesis
        by (intro exI[of _ 0]) (simp add: same_cursor_refl)
    next
      case True
      show ?thesis
      proof (cases "loop_body E (Some r) st")
        case (Raised e s1)
        with Inr True Cons.prems have out: "out = Raised e s1" by simp
        have sc: "same_cursor st s1"
          using loop_body_same_cursor[of st E "Some r"] Raised by simp
        from loop_body_Raised[OF Raised] show ?thesis
        proof
          assume "parse_notification E (data r) = Inl e \<and> s1 = st"
          with out show ?thesis
            by (intro exI[of _ 0]) (simp add: same_cursor_refl)
        next
          assume "\<exists>notif. parse_notification E (data r) = Inr notif \<and> sent s1 = sent st @ [notif]"
          with out sc Inr True show ?thesis
            by (intro exI[of _ 1]) auto
        qed
      next
        case (Returned s1)
        with Inr True Cons.prems have rest: "scan E rs s1 = Some out" by simp
        have sc: "same_cursor st s1"
          using loop_body_same_cursor[of st E "Some r"] Returned by simp
        from loop_body_Returned[OF Returned] obtain notif where
          p: "parse_notification E (data r) = Inr notif" and s: "sent s1 = sent st @ [notif]"
          by blast
        from Cons.IH[OF rest] obtain k where k: "k \<le> length rs"
          "same_cursor s1 (outcome_state out)"
          "map Inr (sent (outcome_state out)) =
             map Inr (sent s1) @ map (\<lambda>r. parse_notification E (data r)) (take k rs)"
          "\<forall>r\<in>set (take k rs). while_cond (Some r) s1 = Inr True"
          "\<forall>s2. out = Returned s2 \<longrightarrow> k < length rs \<and> while_cond (Some (rs ! k)) s1 = Inr False"
          by blast
        have w: "while_cond x s1 = while_cond x st" for x
          using while_cond_same_cursor[OF sc, of x] by simp
        show ?thesis
        proof (intro exI[of _ "Suc k"] conjI)
          show "Suc k \<le> length (r # rs)" using k(1) by simp
          show "same_cursor st (outcome_state out)" using sc k(2) by (rule same_cursor_trans)
          show "map Inr (sent (outcome_state out)) =
                map Inr (sent st) @ map (\<lambda>r. parse_notification E (data r)) (take (Suc k) (r # rs))"
            using k(3) s p by simp
          show "\<forall>x\<in>set (take (Suc k) (r # rs)). while_cond (Some x) st = Inr True"
            using k(4) Inr True w by simp
          show "\<forall>s2. out = Returned s2 \<longrightarrow>
                  Suc k < length (r # rs) \<and> while_cond (Some ((r # rs) ! Suc k)) st = Inr False"
            using k(5) w by simp
        qed
      qed
    qed
  qed
qed

lemma sorted_desc: "sorted (rev (map rec_id (order_by_rec_id_desc store)))"
  by (simp add: order_by_rec_id_desc_def rev_map[symmetric])

lemma desc_strict:
  assumes "distinct (map rec_id store)"
  shows "sorted_wrt (\<lambda>a b. rec_id b < rec_id a) (order_by_rec_id_desc store)"
proof -
  let ?xs = "sort_key rec_id store"
  have "sorted (map rec_id ?xs)" by simp
  moreover have "distinct (map rec_id ?xs)" using assms by (simp add: distinct_map)
  ultimately have "sorted_wrt (<) (map rec_id ?xs)"
    by (simp add: strict_sorted_iff)
  then have "sorted_wrt (\<lambda>a b. rec_id a < rec_id b) ?xs"
    by (simp add: sorted_wrt_map)
  then show ?thesis
    by (simp add: order_by_rec_id_desc_def sorted_wrt_rev)
qed

lemma sorted_map_le_last:
  "sorted (map f xs) \<Longrightarrow> x \<in> set xs \<Longrightarrow> f x \<le> f (last xs)"
  by (induction xs) (auto split: if_splits)

lemma desc_first_newest:
  assumes "store \<noteq> []"
  shows "order_by_rec_id_desc store ! 0 \<in> set store \<and>
         (\<forall>q\<in>set store. rec_id q \<le> rec_id (order_by_rec_id_desc store ! 0))"
proof -
  let ?xs = "sort_key rec_id store"
  have ne: "?xs \<noteq> []" using assms by (metis length_sort length_0_conv)
  have "rev ?xs \<noteq> []" using ne by simp
  then have "rev ?xs ! 0 = hd (rev ?xs)" by (rule hd_conv_nth[symmetric])
  then have f: "order_by_rec_id_desc store ! 0 = last ?xs"
    by (simp only: order_by_rec_id_desc_def hd_rev)
  have "last ?xs \<in> set ?xs" using ne by (rule last_in_set)
  then have 1: "last ?xs \<in> set store" by simp
  have s: "sorted (map rec_id ?xs)" by simp
  have 2: "rec_id q \<le> rec_id (last ?xs)" if "q \<in> set store" for q
  proof -
    from that have "q \<in> set ?xs" by simp
    with s show ?thesis by (rule sorted_map_le_last)
  qed
  from 1 2 f show ?thesis by simp
qed

lemma check_Raised_cursor:
  assumes "check E store st = Some (Raised e s1)"
  shows "same_cursor st s1"
proof -
  have "same_cursor st0 (outcome_state y0)"
    if a: "check_loop E0 store0 n0 sql0 st0 = Some y0" for E0 store0 n0 sql0 st0 y0
  proof (rule check_loop.raw_induct[where P = "\<lambda>E' store' n sql st' y. same_cursor st' (outcome_state y)", OF _ a], goal_cases)
    case (1 f E' store' n sql st' y)
    show ?case
    proof (cases "while_cond sql st'")
      case (Inl e)
      with 1(2) show ?thesis by (auto simp: same_cursor_refl)
    next
      case (Inr go)
      show ?thesis
      proof (cases go)
        case False
        with Inr 1(2) show ?thesis by (auto simp: same_cursor_refl)
      next
        case True
        have sc: "same_cursor st' (outcome_state (loop_body E' sql st'))"
          by (rule loop_body_same_cursor)
        show ?thesis
        proof (cases "loop_body E' sql st'")
          case (Raised e s2)
          with Inr True 1(2) sc show ?thesis by auto
        next
          case (Returned s2)
          with Inr True 1(2) have "f E' store' (n + 1) (get_notification_data store' (n + 1)) s2 = Some y"
            by simp
          from 1(1)[OF this] sc Returned show ?thesis
            by (auto intro: same_cursor_trans)
        qed
      qed
    qed
  qed
  with assms show ?thesis
    by (fastforce simp: check_def split: option.splits outcome.splits)
qed

text \<open>
  Claim C1: when a poll finds several new rows they are dispatched oldest first.  The
  source sends each row as the backward scan reaches it and reverses nothing, so the
  rows inserted as 4, 5, 6 are sent as 6, 5, 4.
\<close>

theorem dispatch_oldest_first_counterexample:
  "check (sample_env 200)
     [sample_row 1 ''1'' 10, sample_row 2 ''2'' 20, sample_row 3 ''3'' 30,
      sample_row 4 ''4'' 40, sample_row 5 ''5'' 50, sample_row 6 ''6'' 60]
     (sample_state (Assigned 3) (Assigned (Some 30))) =
   Some (Returned (sample_state (Assigned 6) (Assigned (Some 60))
     \<lparr>sent := [sample_notification ''6'', sample_notification ''5'', sample_notification ''4'']\<rparr>))"
  by (simp add: poll_defs query_defs sample_defs check_loop.simps)

text \<open>
  Claim C1 as amended: the notifications a poll hands to the provider are those of the
  first \<open>k\<close> rows of the store in descending \<^verbatim>\<open>rec_id\<close> order, in that order: newest
  first.  This holds however the poll ends, by return or by exception.
\<close>

theorem dispatch_newest_first:
  assumes "distinct (map rec_id store)" and "check E store st = Some out"
  shows "\<exists>k\<le>length store.
           map Inr (sent (outcome_state out)) =
             map Inr (sent st) @
             map (\<lambda>r. parse_notification E (data r)) (take k (order_by_rec_id_desc store)) \<and>
           sorted_wrt (\<lambda>a b. rec_id b < rec_id a) (take k (order_by_rec_id_desc store))"
proof (cases "store = []")
  case True
  with assms(2) have "out = Returned st"
    by (simp add: check_def get_notification_data_empty)
  then show ?thesis by (intro exI[of _ 0]) simp
next
  case False
  let ?D = "order_by_rec_id_desc store"
  from assms(2) obtain o1 where o1: "scan E ?D st = Some o1"
    and s: "sent (outcome_state out) = sent (outcome_state o1)"
    by (auto simp: check_scan[OF assms(1) False] split: option.splits outcome.splits)
  from scan_Some[OF o1] obtain k where "k \<le> length ?D"
    "map Inr (sent (outcome_state o1)) =
       map Inr (sent st) @ map (\<lambda>r. parse_notification E (data r)) (take k ?D)"
    by blast
  moreover have "sorted_wrt (\<lambda>a b. rec_id b < rec_id a) (take k ?D)"
    using desc_strict[OF assms(1)] by (rule sorted_wrt_take)
  ultimately show ?thesis using s by (auto simp: length_desc)
qed

theorem dispatch_newest_first_witness:
  "distinct (map rec_id [sample_row 3 ''3'' 30, sample_row 4 ''4'' 40, sample_row 5 ''5'' 50]) \<and>
   check (sample_env 200) [sample_row 3 ''3'' 30, sample_row 4 ''4'' 40, sample_row 5 ''5'' 50]
     (sample_state (Assigned 3) (Assigned (Some 30))) =
   Some (Returned (sample_state (Assigned 5) (Assigned (Some 50))
     \<lparr>sent := [sample_notification ''5'', sample_notification ''4'']\<rparr>)) \<and>
   (\<exists>k\<le>length [sample_row 3 ''3'' 30, sample_row 4 ''4'' 40, sample_row 5 ''5'' 50].
      map Inr (sent (outcome_state (Returned (sample_state (Assigned 5) (Assigned (Some 50))
        \<lparr>sent := [sample_notification ''5'', sample_notification ''4'']\<rparr>)))) =
        map Inr (sent (sample_state (Assigned 3) (Assigned (Some 30)))) @
        map (\<lambda>r. parse_notification (sample_env 200) (data r))
          (take k (order_by_rec_id_desc
             [sample_row 3 ''3'' 30, sample_row 4 ''4'' 40, sample_row 5 ''5'' 50])) \<and>
      sorted_wrt (\<lambda>a b. rec_id b < rec_id a)
        (take k (order_by_rec_id_desc
           [sample_row 3 ''3'' 30, sample_row 4 ''4'' 40, sample_row 5 ''5'' 50])))"
proof -
  let ?S = "[sample_row 3 ''3'' 30, sample_row 4 ''4'' 40, sample_row 5 ''5'' 50]"
  let ?st = "sample_state (Assigned 3) (Assigned (Some 30))"
  let ?out = "Returned (sample_state (Assigned 5) (Assigned (Some 50))
                \<lparr>sent := [sample_notification ''5'', sample_notification ''4'']\<rparr>)"
  have d: "distinct (map rec_id ?S)" by (simp add: sample_row_def)
  have c: "check (sample_env 200) ?S ?st = Some ?out"
    by (simp add: poll_defs query_defs sample_defs check_loop.simps)
  show ?thesis
    by (intro conjI d c dispatch_newest_first[OF d c])
qed

text \<open>
  Claim C3: the cursor only ever advances to a strictly newer row.  The source assigns
  the cursor from the newest row of the store whatever the cursor was: with the cursor at
  row 3 and row 3 deleted, a poll on the rows 1 and 2 moves the cursor back to row 2.
\<close>

theorem cursor_moves_back_counterexample:
  "check (sample_env 200) [sample_row 1 ''1'' 10, sample_row 2 ''2'' 20]
     (sample_state (Assigned 3) (Assigned (Some 30))) =
   Some (Returned (sample_state (Assigned 2) (Assigned (Some 20))))"
  by (simp add: poll_defs query_defs sample_defs check_loop.simps)

lemma check_cursor_after:
  assumes "distinct (map rec_id store)" and "check E store st = Some out"
  shows "(\<forall>e s1. out = Raised e s1 \<longrightarrow>
            last_id s1 = last_id st \<and> last_date s1 = last_date st) \<and>
         (\<forall>s1. out = Returned s1 \<longrightarrow>
            (store = [] \<and> s1 = st) \<or>
            (\<exists>r\<in>set store. (\<forall>q\<in>set store. rec_id q \<le> rec_id r) \<and>
               last_id s1 = Assigned (rec_id r) \<and>
               last_date s1 = Assigned (effective_date r)))"
proof (rule conjI; intro allI impI)
  fix e s1 assume "out = Raised e s1"
  with assms(2) have "same_cursor st s1" by (simp add: check_Raised_cursor)
  then show "last_id s1 = last_id st \<and> last_date s1 = last_date st"
    by (simp add: same_cursor_def)
next
  fix s1 assume r: "out = Returned s1"
  show "(store = [] \<and> s1 = st) \<or>
        (\<exists>r\<in>set store. (\<forall>q\<in>set store. rec_id q \<le> rec_id r) \<and>
           last_id s1 = Assigned (rec_id r) \<and> last_date s1 = Assigned (effective_date r))"
  proof (cases "store = []")
    case True
    with assms(2) r show ?thesis by (simp add: check_def get_notification_data_empty)
  next
    case False
    let ?r = "order_by_rec_id_desc store ! 0"
    have m: "0 < length store" using False by simp
    have g: "get_notification_data store 0 = Some ?r"
      by (rule get_notification_data_lt[OF assms(1) m])
    from assms(2) r g have "last_id s1 = Assigned (rec_id ?r) \<and>
        last_date s1 = Assigned (effective_date ?r)"
      by (auto simp: check_def split: option.splits outcome.splits)
    with desc_first_newest[OF False] show ?thesis by blast
  qed
qed

text \<open>
  Claim C3 as amended: a poll that returns on a non-empty store leaves the cursor at the
  id and the effective date of the row of greatest \<^verbatim>\<open>rec_id\<close> then in the store,
  whatever the cursor was before (so never older than a row still in the store, but older
  than the previous cursor when the newest rows were deleted); on an empty store it
  changes nothing.  The two fields are assigned together after the loop: a poll that ends
  with an exception leaves both as they were.
\<close>

theorem cursor_is_newest_row_after_poll:
  assumes "distinct (map rec_id store)" and "check E store st = Some out"
  shows "(\<forall>e s1. out = Raised e s1 \<longrightarrow>
            last_id s1 = last_id st \<and> last_date s1 = last_date st) \<and>
         (\<forall>s1. out = Returned s1 \<longrightarrow>
            (store = [] \<and> s1 = st) \<or>
            (\<exists>r\<in>set store. (\<forall>q\<in>set store. rec_id q \<le> rec_id r) \<and>
               last_id s1 = Assigned (rec_id r) \<and>
               last_date s1 = Assigned (effective_date r)))"
  using assms by (rule check_cursor_after)

theorem cursor_is_newest_row_after_poll_witness:
  "distinct (map rec_id [sample_row 1 ''1'' 10, sample_row 2 ''2'' 20]) \<and>
   check (sample_env 200) [sample_row 1 ''1'' 10, sample_row 2 ''2'' 20]
     (sample_state (Assigned 3) (Assigned (Some 30))) =
   Some (Returned (sample_state (Assigned 2) (Assigned (Some 20)))) \<and>
   (\<exists>r\<in>set [sample_row 1 ''1'' 10, sample_row 2 ''2'' 20].
      (\<forall>q\<in>set [sample_row 1 ''1'' 10, sample_row 2 ''2'' 20]. rec_id q \<le> rec_id r) \<and>
      last_id (sample_state (Assigned 2) (Assigned (Some 20))) = Assigned (rec_id r) \<and>
      last_date (sample_state (Assigned 2) (Assigned (Some 20))) = Assigned (effective_date r))"
proof -
  let ?S = "[sample_row 1 ''1'' 10, sample_row 2 ''2'' 20]"
  let ?s1 = "sample_state (Assigned 2) (Assigned (Some 20))"
  have d: "distinct (map rec_id ?S)" by (simp add: sample_row_def)
  have c: "check (sample_env 200) ?S (sample_state (Assigned 3) (Assigned (Some 30))) =
           Some (Returned ?s1)"
    by (simp add: poll_defs query_defs sample_defs check_loop.simps)
  have ne: "?S \<noteq> []" by simp
  from cursor_is_newest_row_after_poll[OF d c] ne
  have "\<exists>r\<in>set ?S. (\<forall>q\<in>set ?S. rec_id q \<le> rec_id r) \<and>
      last_id ?s1 = Assigned (rec_id r) \<and> last_date ?s1 = Assigned (effective_date r)"
    by blast
  with d c show ?thesis by blast
qed

lemma scan_None_iff:
  "scan E rows st = None \<longleftrightarrow>
   (\<forall>r\<in>set rows. while_cond (Some r) st = Inr True \<and>
                 (\<exists>s1. loop_body E (Some r) st = Returned s1))"
proof (induction rows arbitrary: st)
  case Nil
  show ?case by simp
next
  case (Cons r rs)
  show ?case
  proof (cases "while_cond (Some r) st")
    case (Inl e)
    then show ?thesis by simp
  next
    case (Inr go)
    show ?thesis
    proof (cases go)
      case False
      with Inr show ?thesis by simp
    next
      case True
      show ?thesis
      proof (cases "loop_body E (Some r) st")
        case (Raised e s1)
        with Inr True show ?thesis by simp
      next
        case (Returned s1)
        have sc: "same_cursor st s1"
          using loop_body_same_cursor[of st E "Some r"] Returned by simp
        have sc': "same_cursor s1 st" using sc by (simp add: same_cursor_def)
        have w: "while_cond x s1 = while_cond x st" for x
          using while_cond_same_cursor[OF sc, of x] by simp
        have b: "(\<exists>s. loop_body E x s1 = Returned s) \<longleftrightarrow> (\<exists>s. loop_body E x st = Returned s)" for x
          using loop_body_returns_again[OF _ sc] loop_body_returns_again[OF _ sc'] by blast
        from Inr True Returned have "scan E (r # rs) st = scan E rs s1" by simp
        with Cons.IH[of s1] Inr True Returned show ?thesis
          by (simp add: w b)
      qed
    qed
  qed
qed

lemma check_never_returns_iff:
  assumes "distinct (map rec_id store)" and "store \<noteq> []"
  shows "check E store st = None \<longleftrightarrow>
         (\<forall>r\<in>set store. while_cond (Some r) st = Inr True \<and>
                        (\<exists>s1. loop_body E (Some r) st = Returned s1))"
proof -
  have "check E store st = None \<longleftrightarrow> scan E (order_by_rec_id_desc store) st = None"
    by (simp add: check_scan[OF assms] split: option.splits outcome.splits)
  then show ?thesis by (simp add: scan_None_iff set_desc)
qed

text \<open>
  Claim C2: one call of \<^verbatim>\<open>check\<close> terminates and raises no error, for every store and
  every cursor, also when the row the cursor designates was deleted.  With the cursor at
  row 3 (date 30) and the store holding only row 4 (date 40), the loop sends row 4, asks
  for offset 1, gets row 4 again (the query never returns \<^verbatim>\<open>None\<close> on a non-empty store,
  by \<open>get_notification_data_eq\<close>), and so on without end.  By
  \<open>check_never_returns_iff\<close> this happens exactly when every row of the store passes the
  loop condition and is sent without an exception.
\<close>

theorem poll_never_returns_after_deletion:
  "check (sample_env 200) [sample_row 4 ''4'' 40]
     (sample_state (Assigned 3) (Assigned (Some 30))) = None"
proof -
  have "distinct (map rec_id [sample_row 4 ''4'' 40])" by simp
  moreover have "[sample_row 4 ''4'' 40] \<noteq> []" by simp
  ultimately show ?thesis
    by (simp add: check_never_returns_iff)
       (simp add: while_cond_def loop_body_def effective_date_def parse_notification_def send_def
          Let_def sample_defs)
qed

text \<open>
  Claim C7: when the store is empty at startup the cursor stays unset, and later polls
  treat every row as new without failing.  The first half holds: \<^verbatim>\<open>setup\<close> assigns
  nothing.  The attributes \<^verbatim>\<open>last_id\<close> and \<^verbatim>\<open>last_date\<close> then do not exist, and the
  first poll that finds a row raises \<^verbatim>\<open>AttributeError\<close> when the loop condition reads
  \<^verbatim>\<open>Notification.last_id\<close>: nothing is sent and the cursor is not assigned.
\<close>

theorem unset_cursor_poll_raises:
  "setup' (sample_args (PyStr ''prowl'') (Some ''key'') None) [] = Inr (sample_state Unset Unset)
   \<and> check (sample_env 200) [sample_row 1 ''1'' 10] (sample_state Unset Unset) =
       Some (Raised AttributeError (sample_state Unset Unset))"
proof
  show "setup' (sample_args (PyStr ''prowl'') (Some ''key'') None) [] = Inr (sample_state Unset Unset)"
    by (simp add: setup'_def validate_args_prowl sample_defs PROVIDERS_def get_notification_data_empty)
  show "check (sample_env 200) [sample_row 1 ''1'' 10] (sample_state Unset Unset) =
       Some (Raised AttributeError (sample_state Unset Unset))"
    by (simp add: poll_defs query_defs sample_defs check_loop.simps)
qed

text \<open>
  Claim C6: after a poll that completes, a second poll on the unchanged store dispatches
  nothing.  The second poll even returns the very state it started from: the newest row
  is the one the cursor designates, so the loop body is never entered.
\<close>

theorem second_poll_dispatches_nothing:
  assumes "check E store st = Some (Returned s1)"
  shows "check E store s1 = Some (Returned s1)"
proof (cases "get_notification_data store 0")
  case None
  with assms show ?thesis by (simp add: check_def)
next
  case (Some r)
  with assms obtain s0 where s1: "s1 = s0\<lparr>last_id := Assigned (rec_id r),
                               last_date := Assigned (effective_date r)\<rparr>"
    by (auto simp: check_def split: option.splits outcome.splits)
  have "while_cond (Some r) s1 = Inr False"
    by (simp add: while_cond_def s1)
  then have "check_loop E store 0 (Some r) s1 = Some (Returned s1)"
    by (simp add: check_loop.simps[of E store 0])
  with Some show ?thesis by (simp add: check_def s1)
qed

theorem second_poll_dispatches_nothing_witness:
  "check (sample_env 200) [sample_row 3 ''3'' 30, sample_row 4 ''4'' 40]
     (sample_state (Assigned 3) (Assigned (Some 30))) =
     Some (Returned (sample_state (Assigned 4) (Assigned (Some 40))
       \<lparr>sent := [sample_notification ''4'']\<rparr>)) \<and>
   check (sample_env 200) [sample_row 3 ''3'' 30, sample_row 4 ''4'' 40]
     (sample_state (Assigned 4) (Assigned (Some 40))\<lparr>sent := [sample_notification ''4'']\<rparr>) =
     Some (Returned (sample_state (Assigned 4) (Assigned (Some 40))
       \<lparr>sent := [sample_notification ''4'']\<rparr>))"
proof -
  have c: "check (sample_env 200) [sample_row 3 ''3'' 30, sample_row 4 ''4'' 40]
     (sample_state (Assigned 3) (Assigned (Some 30))) =
     Some (Returned (sample_state (Assigned 4) (Assigned (Some 40))
       \<lparr>sent := [sample_notification ''4'']\<rparr>))"
    by (simp add: poll_defs query_defs sample_defs check_loop.simps)
  show ?thesis
    by (intro conjI c second_poll_dispatches_nothing[OF c])
qed

subsection \<open>Status codes\<close>

lemma quiet_eq_iff:
  "quiet a = quiet b \<longleftrightarrow>
     FREQ a = FREQ b \<and> SILENT a = SILENT b \<and> TEST a = TEST b \<and> PROVIDER a = PROVIDER b \<and>
     last_id a = last_id b \<and> last_date a = last_date b \<and> sent a = sent b"
  by (cases a; cases b) (auto simp: quiet_def)

lemma quiet_same_cursor: "quiet a = quiet b \<Longrightarrow> same_cursor a b"
  by (simp add: quiet_eq_iff same_cursor_def)

lemma parse_same_decoding:
  "same_decoding E1 E2 \<Longrightarrow> parse_notification E1 p = parse_notification E2 p"
  by (auto simp: same_decoding_def parse_notification_def Let_def split: option.splits)

lemma send_notification_answers:
  "always_answers E \<Longrightarrow> \<exists>resp. send_notification E p a t x = Some resp"
  by (cases p) (auto simp: always_answers_def)

lemma send_answered:
  assumes "send_notification E (PROVIDER st) (app n) (title n) (ntext n) = Some resp"
  shows "send E n st =
           Returned (st\<lparr>console := console st @ (if SILENT st then [] else [SendingFrom n]) @
                         (if status_code resp = 200 then []
                          else [UnexpectedStatus (status_code resp) (reason resp) (rtext resp)]),
                       sent := sent st @ [n]\<rparr>)"
  using assms by (simp add: send_def Let_def)

lemma send_silenced:
  assumes "always_answers E1" "always_answers E2" "quiet a = quiet b"
  shows "silenced (send E1 n a) = silenced (send E2 n b)"
proof -
  obtain r1 where r1: "send_notification E1 (PROVIDER a) (app n) (title n) (ntext n) = Some r1"
    using send_notification_answers[OF assms(1)] by blast
  obtain r2 where r2: "send_notification E2 (PROVIDER b) (app n) (title n) (ntext n) = Some r2"
    using send_notification_answers[OF assms(2)] by blast
  from assms(3) show ?thesis
    unfolding send_answered[OF r1] send_answered[OF r2]
    by (simp add: quiet_eq_iff)
qed

lemma loop_body_silenced:
  assumes "same_decoding E1 E2" "always_answers E1" "always_answers E2" "quiet a = quiet b"
  shows "silenced (loop_body E1 sql a) = silenced (loop_body E2 sql b)"
  using assms(4) send_silenced[OF assms(2,3,4)] parse_same_decoding[OF assms(1)]
  by (auto simp: loop_body_def split: option.splits sum.splits)

lemma silenced_Returned: "silenced y = Returned s \<Longrightarrow> \<exists>s'. y = Returned s' \<and> quiet s' = s"
  by (cases y) auto

lemma silenced_Raised: "silenced y = Raised e s \<Longrightarrow> \<exists>s'. y = Raised e s' \<and> quiet s' = s"
  by (cases y) auto

lemma check_loop_silenced_Some:
  assumes d: "same_decoding E1 E2" and a1: "always_answers E1" and a2: "always_answers E2"
    and run: "check_loop E1 store n sql a = Some y" and q: "quiet a = quiet b"
  shows "\<exists>y'. check_loop E2 store n sql b = Some y' \<and> silenced y' = silenced y"
proof -
  let ?P = "\<lambda>E0 store0 n0 sql0 a0 y0. E0 = E1 \<longrightarrow>
              (\<forall>b0. quiet a0 = quiet b0 \<longrightarrow>
                 (\<exists>y'. check_loop E2 store0 n0 sql0 b0 = Some y' \<and> silenced y' = silenced y0))"
  have "?P E1 store n sql a y"
  proof (rule check_loop.raw_induct[where P = ?P, OF _ run], goal_cases)
    case (1 f E0 store0 n0 sql0 a0 y0)
    show ?case
    proof (intro impI allI)
      fix b0 assume e: "E0 = E1" and qq: "quiet a0 = quiet b0"
      have w: "while_cond sql0 b0 = while_cond sql0 a0"
        using while_cond_same_cursor[OF quiet_same_cursor[OF qq]] by simp
      have lb: "silenced (loop_body E1 sql0 a0) = silenced (loop_body E2 sql0 b0)"
        by (rule loop_body_silenced[OF d a1 a2 qq])
      show "\<exists>y'. check_loop E2 store0 n0 sql0 b0 = Some y' \<and> silenced y' = silenced y0"
      proof (cases "while_cond sql0 a0")
        case (Inl err)
        with 1(2) have "y0 = Raised err a0" by simp
        with Inl w qq show ?thesis by (simp add: check_loop.simps[of E2 store0 n0])
      next
        case (Inr go)
        show ?thesis
        proof (cases go)
          case False
          with Inr 1(2) have "y0 = Returned a0" by simp
          with Inr False w qq show ?thesis by (simp add: check_loop.simps[of E2 store0 n0])
        next
          case True
          show ?thesis
          proof (cases "loop_body E1 sql0 a0")
            case (Raised err s1)
            with Inr True 1(2) e have y0: "y0 = Raised err s1" by simp
            from lb Raised obtain s2 where "loop_body E2 sql0 b0 = Raised err s2" "quiet s2 = quiet s1"
              using silenced_Raised[of "loop_body E2 sql0 b0" err "quiet s1"] by auto
            with Inr True w y0 show ?thesis by (simp add: check_loop.simps[of E2 store0 n0])
          next
            case (Returned s1)
            with Inr True 1(2) e
            have f: "f E0 store0 (n0 + 1) (get_notification_data store0 (n0 + 1)) s1 = Some y0"
              by simp
            from lb Returned obtain s2 where s2: "loop_body E2 sql0 b0 = Returned s2" "quiet s2 = quiet s1"
              using silenced_Returned[of "loop_body E2 sql0 b0" "quiet s1"] by auto
            from 1(1)[OF f] e s2(2) obtain y' where
              "check_loop E2 store0 (n0 + 1) (get_notification_data store0 (n0 + 1)) s2 = Some y'"
              "silenced y' = silenced y0"
              by (metis)
            with Inr True w s2(1) show ?thesis by (simp add: check_loop.simps[of E2 store0 n0])
          qed
        qed
      qed
    qed
  qed
  with q show ?thesis by blast
qed

lemma same_decoding_sym: "same_decoding E1 E2 \<Longrightarrow> same_decoding E2 E1"
  by (simp add: same_decoding_def)

lemma check_loop_silenced:
  assumes d: "same_decoding E1 E2" and a1: "always_answers E1" and a2: "always_answers E2"
    and q: "quiet a = quiet b"
  shows "map_option silenced (check_loop E1 store n sql a) =
         map_option silenced (check_loop E2 store n sql b)"
proof (cases "check_loop E1 store n sql a")
  case None
  have "check_loop E2 store n sql b = None"
  proof (rule ccontr)
    assume "check_loop E2 store n sql b \<noteq> None"
    then obtain y where "check_loop E2 store n sql b = Some y" by auto
    from check_loop_silenced_Some[OF same_decoding_sym[OF d] a2 a1 this q[symmetric]] None
    show False by simp
  qed
  with None show ?thesis by simp
next
  case (Some y)
  from check_loop_silenced_Some[OF d a1 a2 Some q] Some show ?thesis by auto
qed

lemma quiet_cursor_update:
  "quiet a = quiet b \<Longrightarrow>
   quiet (a\<lparr>last_id := i, last_date := d\<rparr>) = quiet (b\<lparr>last_id := i, last_date := d\<rparr>)"
  by (simp add: quiet_eq_iff)

lemma check_silenced:
  assumes d: "same_decoding E1 E2" and a1: "always_answers E1" and a2: "always_answers E2"
  shows "map_option silenced (check E1 store st) = map_option silenced (check E2 store st)"
proof (cases "get_notification_data store 0")
  case None
  then show ?thesis by (simp add: check_def)
next
  case (Some r)
  have eq: "map_option silenced (check_loop E1 store 0 (Some r) st) =
        map_option silenced (check_loop E2 store 0 (Some r) st)"
    by (rule check_loop_silenced[OF d a1 a2 refl])
  show ?thesis
  proof (cases "check_loop E1 store 0 (Some r) st")
    case n1: None
    with eq have "check_loop E2 store 0 (Some r) st = None" by simp
    with n1 Some show ?thesis by (simp add: check_def)
  next
    case s1: (Some y1)
    with eq obtain y2 where s2: "check_loop E2 store 0 (Some r) st = Some y2"
      and y: "silenced y1 = silenced y2"
      by (cases "check_loop E2 store 0 (Some r) st") auto
    show ?thesis
    proof (cases y1)
      case (Returned x1)
      with y obtain x2 where x2: "y2 = Returned x2" "quiet x2 = quiet x1"
        using silenced_Returned[of y2 "quiet x1"] by auto
      have "quiet (x1\<lparr>last_id := Assigned (rec_id r), last_date := Assigned (effective_date r)\<rparr>) =
            quiet (x2\<lparr>last_id := Assigned (rec_id r), last_date := Assigned (effective_date r)\<rparr>)"
        by (rule quiet_cursor_update[OF x2(2)[symmetric]])
      with Returned x2(1) s1 s2 Some show ?thesis
        by (simp add: check_def)
    next
      case (Raised e x1)
      with y obtain x2 where "y2 = Raised e x2" "quiet x2 = quiet x1"
        using silenced_Raised[of y2 e "quiet x1"] by auto
      with Raised s1 s2 Some show ?thesis
        by (simp add: check_def)
    qed
  qed
qed

lemma send_lines_same_cursor: "same_cursor a b \<Longrightarrow> send_lines E a n = send_lines E b n"
  by (simp add: send_lines_def same_cursor_def)

lemma send_prints_lines:
  assumes "always_answers E"
  shows "send E n st = Returned (st\<lparr>console := console st @ send_lines E st n,
                                     sent := sent st @ [n]\<rparr>)"
proof -
  obtain resp where r: "send_notification E (PROVIDER st) (app n) (title n) (ntext n) = Some resp"
    using send_notification_answers[OF assms] by blast
  show ?thesis
    unfolding send_answered[OF r] by (simp add: send_lines_def r)
qed

lemma scan_sends_new_rows:
  assumes aa: "always_answers E"
  shows "same_cursor st0 st \<Longrightarrow>
    \<forall>r\<in>set (takeWhile (\<lambda>r. while_cond (Some r) st0 = Inr True) rows).
       \<exists>n. parse_notification E (data r) = Inr n \<Longrightarrow>
    length (takeWhile (\<lambda>r. while_cond (Some r) st0 = Inr True) rows) < length rows \<Longrightarrow>
    while_cond (Some (rows ! length (takeWhile (\<lambda>r. while_cond (Some r) st0 = Inr True) rows))) st0
      = Inr False \<Longrightarrow>
    \<exists>ns. map Inr ns =
            map (\<lambda>r. parse_notification E (data r))
              (takeWhile (\<lambda>r. while_cond (Some r) st0 = Inr True) rows) \<and>
         scan E rows st =
           Some (Returned (st\<lparr>sent := sent st @ ns,
                               console := console st @ concat (map (send_lines E st0) ns)\<rparr>))"
proof (induction rows arbitrary: st)
  case Nil
  then show ?case by simp
next
  case (Cons r rs)
  let ?P = "\<lambda>r. while_cond (Some r) st0 = Inr True"
  have w: "while_cond x st = while_cond x st0" for x
    using while_cond_same_cursor[OF Cons.prems(1), of x] by simp
  show ?case
  proof (cases "?P r")
    case False
    then have tw: "takeWhile ?P (r # rs) = []" by simp
    with Cons.prems(4) have "while_cond (Some r) st0 = Inr False" by simp
    then have "scan E (r # rs) st = Some (Returned st)" by (simp add: w)
    with tw show ?thesis by (intro exI[of _ "[]"]) simp
  next
    case True
    then have tw: "takeWhile ?P (r # rs) = r # takeWhile ?P rs" by simp
    have "r \<in> set (takeWhile ?P (r # rs))" by (simp only: tw list.set_intros)
    with Cons.prems(2) obtain n where n: "parse_notification E (data r) = Inr n" by blast
    let ?s1 = "st\<lparr>console := console st @ send_lines E st n, sent := sent st @ [n]\<rparr>"
    have body: "loop_body E (Some r) st = Returned ?s1"
      by (simp add: loop_body_def n send_prints_lines[OF aa])
    have sc1: "same_cursor st0 ?s1"
      using Cons.prems(1) by (simp add: same_cursor_def)
    have "set (takeWhile ?P rs) \<subseteq> set (takeWhile ?P (r # rs))" by (simp only: tw) auto
    with Cons.prems(2)
    have dec: "\<forall>r\<in>set (takeWhile ?P rs). \<exists>n. parse_notification E (data r) = Inr n"
      by blast
    have len: "length (takeWhile ?P rs) < length rs" using Cons.prems(3) tw by simp
    have stop: "while_cond (Some (rs ! length (takeWhile ?P rs))) st0 = Inr False"
      using Cons.prems(4) tw by simp
    from Cons.IH[OF sc1 dec len stop] obtain ns where ns:
      "map Inr ns = map (\<lambda>r. parse_notification E (data r)) (takeWhile ?P rs)"
      "scan E rs ?s1 = Some (Returned (?s1\<lparr>sent := sent ?s1 @ ns,
          console := console ?s1 @ concat (map (send_lines E st0) ns)\<rparr>))"
      by blast
    have l: "send_lines E st n = send_lines E st0 n"
      using send_lines_same_cursor[OF Cons.prems(1), of E n] by simp
    have "scan E (r # rs) st = scan E rs ?s1"
      using True body by (simp add: w)
    with ns(2) have "scan E (r # rs) st =
        Some (Returned (st\<lparr>sent := sent st @ (n # ns),
          console := console st @ concat (map (send_lines E st0) (n # ns))\<rparr>))"
      by (simp add: l)
    moreover have "map Inr (n # ns) = map (\<lambda>r. parse_notification E (data r)) (takeWhile ?P (r # rs))"
      using ns(1) n tw by simp
    ultimately show ?thesis by blast
  qed
qed

lemma check_sends_new_rows:
  assumes d: "distinct (map rec_id store)" and aa: "always_answers E"
    and dec: "\<forall>r\<in>set (new_rows store st). \<exists>n. parse_notification E (data r) = Inr n"
    and len: "length (new_rows store st) < length store"
    and stop: "while_cond (Some (order_by_rec_id_desc store ! length (new_rows store st))) st
                 = Inr False"
  shows "\<exists>ns. map Inr ns = map (\<lambda>r. parse_notification E (data r)) (new_rows store st) \<and>
           check E store st =
             Some (Returned (st\<lparr>sent := sent st @ ns,
                     console := console st @ concat (map (send_lines E st) ns),
                     last_id := Assigned (rec_id (order_by_rec_id_desc store ! 0)),
                     last_date := Assigned (effective_date (order_by_rec_id_desc store ! 0))\<rparr>))"
proof -
  have ne: "store \<noteq> []" using len by auto
  have len': "length (takeWhile (\<lambda>r. while_cond (Some r) st = Inr True) (order_by_rec_id_desc store))
               < length (order_by_rec_id_desc store)"
    using len by (simp add: new_rows_def length_desc)
  from scan_sends_new_rows[OF aa same_cursor_refl dec[unfolded new_rows_def] len'
         stop[unfolded new_rows_def]]
  obtain ns where ns:
    "map Inr ns = map (\<lambda>r. parse_notification E (data r)) (new_rows store st)"
    "scan E (order_by_rec_id_desc store) st =
       Some (Returned (st\<lparr>sent := sent st @ ns,
                           console := console st @ concat (map (send_lines E st) ns)\<rparr>))"
    unfolding new_rows_def by blast
  show ?thesis
    by (intro exI[of _ ns] conjI ns(1)) (simp add: check_scan[OF d ne] ns(2))
qed

text \<open>
  Claim C8: a response with status 200 is a success; any other status is a delivery
  failure, printed with its status, reason and body, and not fatal: no exception is
  raised, the loop goes on, and the cursor advances past the failed record; nothing is
  retried.  The theorem has three parts.  First, \<^verbatim>\<open>send\<close> returns whatever the status
  code is, and prints the line with status, reason and body exactly when the code is not
  200.  Second, a poll against a provider that answers differently ends the same way:
  the printed lines aside, the outcomes are equal.  Third, whatever the status codes
  are, a poll whose scan reaches a row at which the loop condition is false returns,
  having handed every new row to the provider exactly once, in scan order, having
  printed for each its lines, and with the cursor at the newest row of the store.
\<close>

theorem delivery_failure_is_logged_not_fatal:
  "(send_notification E (PROVIDER st) (app n) (title n) (ntext n) = Some resp \<longrightarrow>
      send E n st =
        Returned (st\<lparr>console := console st @ (if SILENT st then [] else [SendingFrom n]) @
                      (if status_code resp = 200 then []
                       else [UnexpectedStatus (status_code resp) (reason resp) (rtext resp)]),
                    sent := sent st @ [n]\<rparr>))
   \<and> (always_answers E \<and> always_answers E' \<and> same_decoding E E' \<longrightarrow>
        map_option silenced (check E' store st) = map_option silenced (check E store st))
   \<and> (distinct (map rec_id store) \<and> always_answers E \<and>
        (\<forall>r\<in>set (new_rows store st). \<exists>m. parse_notification E (data r) = Inr m) \<and>
        length (new_rows store st) < length store \<and>
        while_cond (Some (order_by_rec_id_desc store ! length (new_rows store st))) st = Inr False
        \<longrightarrow>
        (\<exists>ns. map Inr ns = map (\<lambda>r. parse_notification E (data r)) (new_rows store st) \<and>
           check E store st =
             Some (Returned (st\<lparr>sent := sent st @ ns,
                     console := console st @ concat (map (send_lines E st) ns),
                     last_id := Assigned (rec_id (order_by_rec_id_desc store ! 0)),
                     last_date := Assigned (effective_date (order_by_rec_id_desc store ! 0))\<rparr>))))"
proof (intro conjI impI)
  assume "send_notification E (PROVIDER st) (app n) (title n) (ntext n) = Some resp"
  then show "send E n st =
        Returned (st\<lparr>console := console st @ (if SILENT st then [] else [SendingFrom n]) @
                      (if status_code resp = 200 then []
                       else [UnexpectedStatus (status_code resp) (reason resp) (rtext resp)]),
                    sent := sent st @ [n]\<rparr>)"
    by (rule send_answered)
next
  assume a: "always_answers E \<and> always_answers E' \<and> same_decoding E E'"
  then have "same_decoding E' E" by (simp add: same_decoding_sym)
  with a show "map_option silenced (check E' store st) = map_option silenced (check E store st)"
    by (intro check_silenced) simp_all
next
  assume a: "distinct (map rec_id store) \<and> always_answers E \<and>
        (\<forall>r\<in>set (new_rows store st). \<exists>m. parse_notification E (data r) = Inr m) \<and>
        length (new_rows store st) < length store \<and>
        while_cond (Some (order_by_rec_id_desc store ! length (new_rows store st))) st = Inr False"
  then show "\<exists>ns. map Inr ns = map (\<lambda>r. parse_notification E (data r)) (new_rows store st) \<and>
           check E store st =
             Some (Returned (st\<lparr>sent := sent st @ ns,
                     console := console st @ concat (map (send_lines E st) ns),
                     last_id := Assigned (rec_id (order_by_rec_id_desc store ! 0)),
                     last_date := Assigned (effective_date (order_by_rec_id_desc store ! 0))\<rparr>))"
    by (intro check_sends_new_rows) simp_all
qed

theorem delivery_failure_is_logged_not_fatal_witness:
  "new_rows [sample_row 3 ''3'' 30, sample_row 4 ''4'' 40, sample_row 5 ''5'' 50]
     (sample_state (Assigned 3) (Assigned (Some 30))) =
     [sample_row 5 ''5'' 50, sample_row 4 ''4'' 40] \<and>
   check (sample_env 500) [sample_row 3 ''3'' 30, sample_row 4 ''4'' 40, sample_row 5 ''5'' 50]
     (sample_state (Assigned 3) (Assigned (Some 30))) =
     Some (Returned (sample_state (Assigned 5) (Assigned (Some 50))
       \<lparr>sent := [sample_notification ''5'', sample_notification ''4''],
        console := [UnexpectedStatus 500 ''reason'' ''body'',
                    UnexpectedStatus 500 ''reason'' ''body'']\<rparr>)) \<and>
   map_option silenced
     (check (sample_env 500) [sample_row 3 ''3'' 30, sample_row 4 ''4'' 40, sample_row 5 ''5'' 50]
        (sample_state (Assigned 3) (Assigned (Some 30)))) =
   map_option silenced
     (check (sample_env 200) [sample_row 3 ''3'' 30, sample_row 4 ''4'' 40, sample_row 5 ''5'' 50]
        (sample_state (Assigned 3) (Assigned (Some 30)))) \<and>
   send (sample_env 500) (sample_notification ''5'') (sample_state (Assigned 3) (Assigned (Some 30))) =
     Returned (sample_state (Assigned 3) (Assigned (Some 30))
       \<lparr>sent := [sample_notification ''5''],
        console := [UnexpectedStatus 500 ''reason'' ''body'']\<rparr>)"
proof -
  let ?S = "[sample_row 3 ''3'' 30, sample_row 4 ''4'' 40, sample_row 5 ''5'' 50]"
  let ?st = "sample_state (Assigned 3) (Assigned (Some 30))"
  let ?n = "sample_notification ''5''"
  let ?resp = "\<lparr>status_code = 500, reason = ''reason'', rtext = ''body''\<rparr>"
  note t = delivery_failure_is_logged_not_fatal[of "sample_env 500" ?st ?n ?resp "sample_env 200" ?S]
  have D: "order_by_rec_id_desc ?S = [sample_row 5 ''5'' 50, sample_row 4 ''4'' 40, sample_row 3 ''3'' 30]"
    by (simp add: query_defs sample_row_def)
  have nr: "new_rows ?S ?st = [sample_row 5 ''5'' 50, sample_row 4 ''4'' 40]"
    by (simp add: new_rows_def D) (simp add: while_cond_def effective_date_def sample_defs)
  have a: "always_answers (sample_env 200)" by (simp add: always_answers_def sample_env_def)
  have b: "always_answers (sample_env 500)" by (simp add: always_answers_def sample_env_def)
  have c: "same_decoding (sample_env 500) (sample_env 200)"
    by (simp add: same_decoding_def sample_env_def)
  have f: "send_notification (sample_env 500) (PROVIDER ?st) (app ?n) (title ?n) (ntext ?n) =
           Some ?resp"
    by (simp add: sample_defs)
  have p: "parse_notification (sample_env 500) (data (sample_row k s d)) = Inr (sample_notification s)"
    for k s d
    by (simp add: parse_notification_def sample_defs init_notification_def or_empty_def Let_def)
  have h3: "distinct (map rec_id ?S) \<and> always_answers (sample_env 500) \<and>
        (\<forall>r\<in>set (new_rows ?S ?st). \<exists>m. parse_notification (sample_env 500) (data r) = Inr m) \<and>
        length (new_rows ?S ?st) < length ?S \<and>
        while_cond (Some (order_by_rec_id_desc ?S ! length (new_rows ?S ?st))) ?st = Inr False"
    using b by (simp add: nr D p) (simp add: while_cond_def sample_defs)
  from t[THEN conjunct1, rule_format, OF f]
  have s: "send (sample_env 500) ?n ?st =
     Returned (?st\<lparr>sent := [?n], console := [UnexpectedStatus 500 ''reason'' ''body'']\<rparr>)"
    by (simp add: sample_state_def)
  from t[THEN conjunct2, THEN conjunct1, rule_format] a b c
  have e: "map_option silenced (check (sample_env 200) ?S ?st) =
           map_option silenced (check (sample_env 500) ?S ?st)"
    by simp
  from t[THEN conjunct2, THEN conjunct2, rule_format, OF h3]
  obtain ns where ns: "map Inr ns = map (\<lambda>r. parse_notification (sample_env 500) (data r)) (new_rows ?S ?st)"
    and ck: "check (sample_env 500) ?S ?st =
             Some (Returned (?st\<lparr>sent := sent ?st @ ns,
                     console := console ?st @ concat (map (send_lines (sample_env 500) ?st) ns),
                     last_id := Assigned (rec_id (order_by_rec_id_desc ?S ! 0)),
                     last_date := Assigned (effective_date (order_by_rec_id_desc ?S ! 0))\<rparr>))"
    by blast
  from ns have nsv: "ns = [sample_notification ''5'', sample_notification ''4'']"
    by (simp add: nr p map_eq_Cons_conv)
  have ck': "check (sample_env 500) ?S ?st =
     Some (Returned (sample_state (Assigned 5) (Assigned (Some 50))
       \<lparr>sent := [sample_notification ''5'', sample_notification ''4''],
        console := [UnexpectedStatus 500 ''reason'' ''body'',
                    UnexpectedStatus 500 ''reason'' ''body'']\<rparr>))"
    unfolding ck nsv D
    by (simp add: send_lines_def sample_defs effective_date_def)
  show ?thesis
    by (intro conjI nr ck' e[symmetric] s)
qed

subsection \<open>The baseline\<close>










end
